theory Spec2Isabelle
  imports Main
begin

section \<open>The search widget of js/app.js\<close>

subsection \<open>The page: DOM nodes, regions, requests\<close>

text \<open>
  The functions that the script registers as event listeners: \<open>onRequestError\<close> and
  \<open>onRequestLoad\<close> on every request, and the anonymous click listener of lines 132-135
  on every result link.
\<close>

datatype request_handler = OnRequestError | OnRequestLoad

datatype click_handler = LinkClick

text \<open>
  A DOM node is a text node or an element with its tag, its \<open>href\<close> attribute (when set),
  its registered listeners (event type and function) and its children.
\<close>

datatype node =
  TextNode string
  | Elem string "string option" "(string \<times> click_handler) list" "node list"

text \<open>
  The two regions \<open>#error\<close> and \<open>#results\<close>: their child nodes and their \<open>hidden\<close>
  attribute.
\<close>

record region =
  children :: "node list"
  hidden :: bool

text \<open>
  Assigning a string to \<open>textContent\<close> replaces all children by one text node, or by
  nothing when the string is empty. Reading \<open>textContent\<close> concatenates the text of all
  descendants.
\<close>

definition set_textContent :: "string \<Rightarrow> node list" where
  "set_textContent text = (if text = [] then [] else [TextNode text])"

fun textContent :: "node \<Rightarrow> string" where
  "textContent (TextNode t) = t"
| "textContent (Elem tag href ls cs) = concat (map textContent cs)"

definition region_text :: "region \<Rightarrow> string" where
  "region_text r = concat (map textContent (children r))"

text \<open>
  One document of the search API's answer, and the parsed answer. \<open>response.documents\<close>
  is absent (\<open>Undefined\<close>), \<open>null\<close> or an array of documents; the parsed response itself is
  \<open>null\<close> (\<open>None\<close>) or an object.
\<close>

record document =
  title :: string
  url :: string

datatype documents_value = Undefined | Null | Array "document list"

record response_object =
  documents :: documents_value

text \<open>
  An \<open>XMLHttpRequest\<close> object: what \<open>search\<close> sets on it (the arguments of \<open>open\<close>,
  \<open>responseType\<close>, the listeners, \<open>send\<close>, \<open>abort\<close>) and what the network layer sets
  (\<open>completed\<close>, \<open>response\<close>, \<open>error\<close>).
\<close>

record xhr =
  open_method :: string
  open_url :: string
  open_async :: bool
  responseType :: string
  listeners :: "(string \<times> request_handler) list"
  sent :: bool
  aborted :: bool
  completed :: bool
  response :: "response_object option"
  error :: "string option"

text \<open>
  The variables of the script (lines 11-17). Request objects live in a store, in the
  order of their creation; the variable \<open>request\<close> is \<open>null\<close> or refers to one of them.
\<close>

record state =
  errorMsg :: region
  results :: region
  searchInput_value :: string
  searchInput_placeholder :: string
  request :: "nat option"
  xhrs :: "xhr list"

definition apiURL :: string where
  "apiURL = ''https://developer.mozilla.org/search.json?q=''"

definition init :: "region \<Rightarrow> region \<Rightarrow> string \<Rightarrow> string \<Rightarrow> state" where
  "init e r v p =
     \<lparr>errorMsg = e, results = r, searchInput_value = v, searchInput_placeholder = p,
      request = None, xhrs = []\<rparr>"

datatype exn = TypeError

datatype outcome = Returned | Threw exn

subsection \<open>search (lines 39-78)\<close>

text \<open>Lines 42-44: abort the request the variable refers to, if any.\<close>

definition abort :: "xhr \<Rightarrow> xhr" where
  "abort x = x\<lparr>aborted := True\<rparr>"

definition search_abort :: "state \<Rightarrow> state" where
  "search_abort s =
     (case request s of
        None \<Rightarrow> s
      | Some i \<Rightarrow> s\<lparr>xhrs := (xhrs s)[i := abort (xhrs s ! i)]\<rparr>)"

text \<open>Lines 47-53: the loading text, the results region shown, the error region hidden.\<close>

definition search_show :: "(string \<Rightarrow> string) \<Rightarrow> state \<Rightarrow> state" where
  "search_show translate s =
     (let s1 = s\<lparr>results := (results s)\<lparr>children := set_textContent (translate ''searching'')\<rparr>\<rparr>;
          s2 = s1\<lparr>results := (results s1)\<lparr>hidden := False\<rparr>\<rparr>
      in s2\<lparr>errorMsg := (errorMsg s2)\<lparr>hidden := True\<rparr>\<rparr>)"

text \<open>Lines 56-76: the term, the URL, the new request with its two listeners, sent.\<close>

definition new_XMLHttpRequest :: xhr where
  "new_XMLHttpRequest =
     \<lparr>open_method = [], open_url = [], open_async = True, responseType = [],
      listeners = [], sent = False, aborted = False, completed = False,
      response = None, error = None\<rparr>"

definition addEventListener :: "string \<Rightarrow> request_handler \<Rightarrow> xhr \<Rightarrow> xhr" where
  "addEventListener ty h x = x\<lparr>listeners := listeners x @ [(ty, h)]\<rparr>"

definition search_send :: "state \<Rightarrow> state" where
  "search_send s =
     (let term = searchInput_value s;
          term = (if length term = 0 then searchInput_placeholder s else term);
          url = apiURL @ term;
          r = new_XMLHttpRequest;
          r = r\<lparr>open_method := ''get'', open_url := url, open_async := True\<rparr>;
          r = r\<lparr>responseType := ''json''\<rparr>;
          r = addEventListener ''error'' OnRequestError r;
          r = addEventListener ''load'' OnRequestLoad r;
          r = r\<lparr>sent := True\<rparr>
      in s\<lparr>request := Some (length (xhrs s)), xhrs := xhrs s @ [r]\<rparr>)"

definition search :: "(string \<Rightarrow> string) \<Rightarrow> state \<Rightarrow> state" where
  "search translate s = search_send (search_show translate (search_abort s))"

text \<open>
  The same function statement by statement, in the order of the source, so that the
  states the page goes through during one call can be named. \<open>Open_request\<close> stands for
  lines 56-67 (the term, the URL, the new request assigned to the variable, \<open>open\<close>);
  the four statements after it act on the request that it has just assigned.
\<close>

datatype search_stmt =
  Abort_request
  | Set_results_text
  | Show_results
  | Hide_error
  | Open_request
  | Set_responseType
  | Listen_error
  | Listen_load
  | Send_request

definition on_request :: "(xhr \<Rightarrow> xhr) \<Rightarrow> state \<Rightarrow> state" where
  "on_request f s =
     (case request s of
        None \<Rightarrow> s
      | Some i \<Rightarrow> s\<lparr>xhrs := (xhrs s)[i := f (xhrs s ! i)]\<rparr>)"

fun exec_stmt :: "(string \<Rightarrow> string) \<Rightarrow> search_stmt \<Rightarrow> state \<Rightarrow> state" where
  "exec_stmt translate Abort_request s = on_request abort s"
| "exec_stmt translate Set_results_text s =
     s\<lparr>results := (results s)\<lparr>children := set_textContent (translate ''searching'')\<rparr>\<rparr>"
| "exec_stmt translate Show_results s = s\<lparr>results := (results s)\<lparr>hidden := False\<rparr>\<rparr>"
| "exec_stmt translate Hide_error s = s\<lparr>errorMsg := (errorMsg s)\<lparr>hidden := True\<rparr>\<rparr>"
| "exec_stmt translate Open_request s =
     (let term = searchInput_value s;
          term = (if length term = 0 then searchInput_placeholder s else term);
          url = apiURL @ term;
          r = new_XMLHttpRequest;
          r = r\<lparr>open_method := ''get'', open_url := url, open_async := True\<rparr>
      in s\<lparr>request := Some (length (xhrs s)), xhrs := xhrs s @ [r]\<rparr>)"
| "exec_stmt translate Set_responseType s = on_request (\<lambda>r. r\<lparr>responseType := ''json''\<rparr>) s"
| "exec_stmt translate Listen_error s = on_request (addEventListener ''error'' OnRequestError) s"
| "exec_stmt translate Listen_load s = on_request (addEventListener ''load'' OnRequestLoad) s"
| "exec_stmt translate Send_request s = on_request (\<lambda>r. r\<lparr>sent := True\<rparr>) s"

definition search_stmts :: "search_stmt list" where
  "search_stmts =
     [Abort_request, Set_results_text, Show_results, Hide_error, Open_request,
      Set_responseType, Listen_error, Listen_load, Send_request]"

fun run_stmts :: "(string \<Rightarrow> string) \<Rightarrow> search_stmt list \<Rightarrow> state \<Rightarrow> state" where
  "run_stmts translate [] s = s"
| "run_stmts translate (st # sts) s = run_stmts translate sts (exec_stmt translate st s)"

subsection \<open>The two completion handlers (lines 81-155)\<close>

definition showError :: "string \<Rightarrow> state \<Rightarrow> state" where
  "showError text s =
     (let s1 = s\<lparr>errorMsg := (errorMsg s)\<lparr>children := set_textContent text\<rparr>\<rparr>;
          s2 = s1\<lparr>errorMsg := (errorMsg s1)\<lparr>hidden := False\<rparr>\<rparr>
      in s2\<lparr>results := (results s2)\<lparr>hidden := True\<rparr>\<rparr>)"

text \<open>
  The object the variable \<open>request\<close> refers to. Reading a property of \<open>null\<close> throws a
  \<open>TypeError\<close>; the handlers below do so when this is \<open>None\<close>.
\<close>

definition current_request :: "state \<Rightarrow> xhr option" where
  "current_request s =
     (case request s of
        None \<Rightarrow> None
      | Some i \<Rightarrow> (if i < length (xhrs s) then Some (xhrs s ! i) else None))"

definition onRequestError :: "(string \<Rightarrow> string) \<Rightarrow> state \<Rightarrow> outcome \<times> state" where
  "onRequestError translate s =
     (case current_request s of
        None \<Rightarrow> (Threw TypeError, s)
      | Some r \<Rightarrow>
          (let errorMessage =
                 (case error r of
                    None \<Rightarrow> translate ''searching_error''
                  | Some [] \<Rightarrow> translate ''searching_error''
                  | Some (c # cs) \<Rightarrow> c # cs)
           in (Returned, showError errorMessage s)))"

text \<open>The DOM operations the handler uses on the nodes it creates.\<close>

definition createElement :: "string \<Rightarrow> node" where
  "createElement tag = Elem tag None [] []"

fun node_set_textContent :: "string \<Rightarrow> node \<Rightarrow> node" where
  "node_set_textContent text (Elem tag href ls cs) = Elem tag href ls (set_textContent text)"
| "node_set_textContent text (TextNode t) = TextNode text"

fun node_set_href :: "string \<Rightarrow> node \<Rightarrow> node" where
  "node_set_href u (Elem tag href ls cs) = Elem tag (Some u) ls cs"
| "node_set_href u (TextNode t) = TextNode t"

fun node_addEventListener :: "string \<Rightarrow> click_handler \<Rightarrow> node \<Rightarrow> node" where
  "node_addEventListener ty h (Elem tag href ls cs) = Elem tag href (ls @ [(ty, h)]) cs"
| "node_addEventListener ty h (TextNode t) = TextNode t"

fun node_appendChild :: "node \<Rightarrow> node \<Rightarrow> node" where
  "node_appendChild n (Elem tag href ls cs) = Elem tag href ls (cs @ [n])"
| "node_appendChild n (TextNode t) = TextNode t"

definition appendChild :: "node \<Rightarrow> region \<Rightarrow> region" where
  "appendChild n r = r\<lparr>children := children r @ [n]\<rparr>"

text \<open>The body of the \<open>forEach\<close> callback (lines 113-141), for one document.\<close>

definition render_document :: "document \<Rightarrow> state \<Rightarrow> state" where
  "render_document doc s =
     (let docLink = createElement ''a'';
          docLink = node_set_textContent (title doc) docLink;
          docLink = node_set_href (url doc) docLink;
          docLink = node_addEventListener ''click'' LinkClick docLink;
          h2 = createElement ''h2'';
          h2 = node_appendChild docLink h2
      in s\<lparr>results := appendChild h2 (results s)\<rparr>)"

fun forEach_documents :: "document list \<Rightarrow> state \<Rightarrow> state" where
  "forEach_documents [] s = s"
| "forEach_documents (doc # docs) s = forEach_documents docs (render_document doc s)"

definition onRequestLoad :: "(string \<Rightarrow> string) \<Rightarrow> state \<Rightarrow> outcome \<times> state" where
  "onRequestLoad translate s =
     (case current_request s of
        None \<Rightarrow> (Threw TypeError, s)
      | Some r \<Rightarrow>
          (case response r of
             None \<Rightarrow> (Returned, showError (translate ''searching_error'') s)
           | Some resp \<Rightarrow>
               (let s1 = s\<lparr>results := (results s)\<lparr>children := set_textContent []\<rparr>\<rparr>
                in case documents resp of
                     Undefined \<Rightarrow> (Threw TypeError, s1)
                   | Null \<Rightarrow> (Threw TypeError, s1)
                   | Array docs \<Rightarrow>
                       (let s2 =
                              (if length docs = 0
                               then (let p = createElement ''p'';
                                         p = node_set_textContent
                                               (translate ''search_no_results'') p
                                     in s1\<lparr>results := appendChild p (results s1)\<rparr>)
                               else forEach_documents docs s1)
                        in (Returned, s2\<lparr>results := (results s2)\<lparr>hidden := False\<rparr>\<rparr>)))))"

subsection \<open>Clicking a result link (lines 132-135)\<close>

text \<open>
  What a click on a node does: every click listener runs, in the order of registration;
  a link's own navigation of the main page follows unless a listener called
  \<open>preventDefault\<close>. \<open>opened\<close> lists the calls of \<open>window.open\<close> (URL and window name).

  The listener reads \<open>evt.target.href\<close>, the \<open>href\<close> property of the link. The property is
  not the string that was assigned: the browser parses the attribute, resolves it against
  the address of the page and serialises the result (\<open>http://x\<close> reads back \<open>http://x/\<close>, a
  relative URL reads back absolute); without the attribute it is the empty string. That
  function from attribute to property belongs to the browser, not to the script, and is
  the parameter \<open>href_property\<close>; the link's own navigation goes to the same address.
\<close>

record click_result =
  defaultPrevented :: bool
  opened :: "(string \<times> string) list"
  navigated :: "string option"

definition target_href :: "(string \<Rightarrow> string) \<Rightarrow> string option \<Rightarrow> string" where
  "target_href href_property href = (case href of None \<Rightarrow> [] | Some u \<Rightarrow> href_property u)"

fun run_click_handler :: "click_handler \<Rightarrow> string \<Rightarrow> click_result \<Rightarrow> click_result" where
  "run_click_handler LinkClick evt_target_href c =
     (let c1 = c\<lparr>defaultPrevented := True\<rparr>
      in c1\<lparr>opened := opened c1 @ [(evt_target_href, ''overlay'')]\<rparr>)"

fun run_click_listeners ::
  "(string \<times> click_handler) list \<Rightarrow> string \<Rightarrow> click_result \<Rightarrow> click_result" where
  "run_click_listeners [] evt_target_href c = c"
| "run_click_listeners ((ty, h) # ls) evt_target_href c =
     run_click_listeners ls evt_target_href
       (if ty = ''click'' then run_click_handler h evt_target_href c else c)"

fun click :: "(string \<Rightarrow> string) \<Rightarrow> node \<Rightarrow> click_result" where
  "click href_property (TextNode t) =
     \<lparr>defaultPrevented = False, opened = [], navigated = None\<rparr>"
| "click href_property (Elem tag href ls cs) =
     (let c = run_click_listeners ls (target_href href_property href)
                \<lparr>defaultPrevented = False, opened = [], navigated = None\<rparr>
      in if defaultPrevented c \<or> tag \<noteq> ''a'' then c
         else c\<lparr>navigated := map_option href_property href\<rparr>)"

subsection \<open>Events\<close>

text \<open>
  What happens to the page: the form is submitted (lines 28-31 call \<open>search\<close>), the
  user edits the search field, or the network layer completes a request, setting its
  \<open>response\<close> and firing \<open>load\<close>, or setting its \<open>error\<close> and firing \<open>error\<close>.
  A handler that throws ends there; what it wrote before stays written.
\<close>

datatype event =
  Submit
  | Input string
  | Load nat "response_object option"
  | Failure nat "string option"

fun run_request_handler ::
  "(string \<Rightarrow> string) \<Rightarrow> request_handler \<Rightarrow> state \<Rightarrow> state" where
  "run_request_handler translate OnRequestError s = snd (onRequestError translate s)"
| "run_request_handler translate OnRequestLoad s = snd (onRequestLoad translate s)"

fun fire_listeners ::
  "(string \<Rightarrow> string) \<Rightarrow> string \<Rightarrow> (string \<times> request_handler) list \<Rightarrow> state \<Rightarrow> state" where
  "fire_listeners translate ty [] s = s"
| "fire_listeners translate ty ((ty', h) # ls) s =
     fire_listeners translate ty ls
       (if ty' = ty then run_request_handler translate h s else s)"

definition fire :: "(string \<Rightarrow> string) \<Rightarrow> string \<Rightarrow> nat \<Rightarrow> state \<Rightarrow> state" where
  "fire translate ty i s = fire_listeners translate ty (listeners (xhrs s ! i)) s"

fun dispatch :: "(string \<Rightarrow> string) \<Rightarrow> event \<Rightarrow> state \<Rightarrow> state" where
  "dispatch translate Submit s = search translate s"
| "dispatch translate (Input v) s = s\<lparr>searchInput_value := v\<rparr>"
| "dispatch translate (Load i body) s =
     (if i < length (xhrs s)
      then fire translate ''load'' i
             (s\<lparr>xhrs := (xhrs s)[i := (xhrs s ! i)\<lparr>completed := True, response := body\<rparr>]\<rparr>)
      else s)"
| "dispatch translate (Failure i e) s =
     (if i < length (xhrs s)
      then fire translate ''error'' i
             (s\<lparr>xhrs := (xhrs s)[i := (xhrs s ! i)\<lparr>completed := True, error := e\<rparr>]\<rparr>)
      else s)"

fun run :: "(string \<Rightarrow> string) \<Rightarrow> event list \<Rightarrow> state \<Rightarrow> state" where
  "run translate [] s = s"
| "run translate (ev # evs) s = run translate evs (dispatch translate ev s)"

text \<open>
  The network layer completes a request at most once, and never after \<open>abort\<close>: a
  completion event is delivered only to a request that is in flight.
\<close>

definition in_flight :: "nat \<Rightarrow> state \<Rightarrow> bool" where
  "in_flight i s =
     (i < length (xhrs s) \<and> sent (xhrs s ! i) \<and> \<not> aborted (xhrs s ! i)
      \<and> \<not> completed (xhrs s ! i))"

fun deliverable :: "event \<Rightarrow> state \<Rightarrow> bool" where
  "deliverable Submit s = True"
| "deliverable (Input v) s = True"
| "deliverable (Load i body) s = in_flight i s"
| "deliverable (Failure i e) s = in_flight i s"

definition deliver :: "(string \<Rightarrow> string) \<Rightarrow> event \<Rightarrow> state \<Rightarrow> state" where
  "deliver translate ev s = (if deliverable ev s then dispatch translate ev s else s)"

fun run_delivered :: "(string \<Rightarrow> string) \<Rightarrow> event list \<Rightarrow> state \<Rightarrow> state" where
  "run_delivered translate [] s = s"
| "run_delivered translate (ev # evs) s = run_delivered translate evs (deliver translate ev s)"

section \<open>The route narrative of js/app.js (lines 192-220)\<close>

record sign =
  sign_url :: "string option"

record maneuver =
  iconUrl :: "string option"
  signs :: "sign option list"
  narrative :: string

record leg =
  maneuvers :: "maneuver list"

record route_object =
  legs :: "leg list"

record route_data =
  route :: "route_object option"

function signs_loop :: "sign option list \<Rightarrow> nat \<Rightarrow> string \<Rightarrow> string" where
  "signs_loop sgs k html =
     (if k < length sgs
      then signs_loop sgs (k + 1)
             (case sgs ! k of
                None \<Rightarrow> html
              | Some sg \<Rightarrow>
                  (case sign_url sg of
                     None \<Rightarrow> html
                   | Some [] \<Rightarrow> html
                   | Some (c # cs) \<Rightarrow> html @ (''<img src=\"'' @ (c # cs) @ ''\">  '')))
      else html)"
  by pat_completeness auto
termination
  by (relation "measure (\<lambda>(sgs, k, html). length sgs - k)") auto

declare signs_loop.simps [simp del]

definition maneuver_row :: "maneuver \<Rightarrow> string \<Rightarrow> string" where
  "maneuver_row m html =
     (let html = html @ ''<tr>'';
          html = html @ ''<td>'';
          html = (case iconUrl m of
                    None \<Rightarrow> html
                  | Some [] \<Rightarrow> html
                  | Some (c # cs) \<Rightarrow> html @ (''<img src=\"'' @ (c # cs) @ ''\">  ''));
          html = signs_loop (signs m) 0 html;
          html = html @ (''</td><td>'' @ narrative m @ ''</td>'')
      in html @ ''</tr>'')"

function maneuvers_loop :: "maneuver list \<Rightarrow> nat \<Rightarrow> string \<Rightarrow> string" where
  "maneuvers_loop ms j html =
     (if j < length ms then maneuvers_loop ms (j + 1) (maneuver_row (ms ! j) html) else html)"
  by pat_completeness auto
termination
  by (relation "measure (\<lambda>(ms, j, html). length ms - j)") auto

declare maneuvers_loop.simps [simp del]

function legs_loop :: "leg list \<Rightarrow> nat \<Rightarrow> string \<Rightarrow> string" where
  "legs_loop ls i html =
     (if i < length ls then legs_loop ls (i + 1) (maneuvers_loop (maneuvers (ls ! i)) 0 html)
      else html)"
  by pat_completeness auto
termination
  by (relation "measure (\<lambda>(ls, i, html). length ls - i)") auto

declare legs_loop.simps [simp del]

definition displayNarrative :: "route_data \<Rightarrow> string \<Rightarrow> string" where
  "displayNarrative data innerHTML =
     (case route data of
        None \<Rightarrow> innerHTML
      | Some r \<Rightarrow>
          (let html = [];
               html = html @ ''<table><tbody>'';
               html = legs_loop (legs r) 0 html;
               html = html @ ''</tbody></table>''
           in html))"

text \<open>
  The table as section 4.2 of the specification words it, content first and markup
  second. The content is a list of rows, one per maneuver, legs in order and maneuvers in
  order within a leg; a row is the list of the image URLs that are present (the icon,
  then the signs) and the narrative text. An URL that is missing or empty counts as not
  present, and so does a sign that is \<open>null\<close>.
\<close>

definition present_url :: "string option \<Rightarrow> string list" where
  "present_url u = (case u of None \<Rightarrow> [] | Some src \<Rightarrow> (if src = [] then [] else [src]))"

definition sign_urls :: "sign option \<Rightarrow> string list" where
  "sign_urls sg = (case sg of None \<Rightarrow> [] | Some x \<Rightarrow> present_url (sign_url x))"

definition row_of :: "maneuver \<Rightarrow> string list \<times> string" where
  "row_of m = (present_url (iconUrl m) @ concat (map sign_urls (signs m)), narrative m)"

text \<open>
  The markup of such a table: an \<open>img\<close> element per image, followed by two spaces; a \<open>tr\<close>
  per row with the images in its first \<open>td\<close> and the text in its second; the rows inside
  \<open>table\<close> and \<open>tbody\<close>.
\<close>

definition image_markup :: "string \<Rightarrow> string" where
  "image_markup src = ''<img src='' @ [CHR 0x22] @ src @ [CHR 0x22] @ ''>'' @ ''  ''"

definition row_markup :: "string list \<times> string \<Rightarrow> string" where
  "row_markup row =
     ''<tr>'' @ ''<td>'' @ concat (map image_markup (fst row)) @ ''</td>''
       @ ''<td>'' @ snd row @ ''</td>'' @ ''</tr>''"

definition table_markup :: "(string list \<times> string) list \<Rightarrow> string" where
  "table_markup rows = ''<table><tbody>'' @ concat (map row_markup rows) @ ''</tbody></table>''"

text \<open>A route of two legs and three maneuvers, for the example.\<close>

definition example_route :: route_object where
  "example_route =
     \<lparr>legs =
        [\<lparr>maneuvers =
            [\<lparr>iconUrl = Some ''i.png'',
              signs = [None, Some \<lparr>sign_url = Some ''s.png''\<rparr>, Some \<lparr>sign_url = None\<rparr>],
              narrative = ''Go north''\<rparr>,
             \<lparr>iconUrl = None, signs = [], narrative = ''Turn left''\<rparr>]\<rparr>,
         \<lparr>maneuvers =
            [\<lparr>iconUrl = Some [], signs = [Some \<lparr>sign_url = Some ''t.png''\<rparr>],
              narrative = ''Arrive''\<rparr>]\<rparr>]\<rparr>"

section \<open>Vocabulary of the properties\<close>

text \<open>
  The heading and the link that the success handler is expected to build for one document:
  an \<open>h2\<close> holding one \<open>a\<close> whose text is the title, whose \<open>href\<close> is the URL and whose
  click listener is the one of lines 132-135.
\<close>

definition result_link :: "document \<Rightarrow> node" where
  "result_link d = Elem ''a'' (Some (url d)) [(''click'', LinkClick)] (set_textContent (title d))"

definition result_heading :: "document \<Rightarrow> node" where
  "result_heading d = Elem ''h2'' None [] [result_link d]"

text \<open>Queries on a DOM tree: the links below a node, the children of a node, text nodes.\<close>

fun anchors :: "node \<Rightarrow> node list" where
  "anchors (TextNode t) = []"
| "anchors (Elem tag href ls cs) =
     (if tag = ''a'' then [Elem tag href ls cs] else []) @ concat (map anchors cs)"

fun childNodes :: "node \<Rightarrow> node list" where
  "childNodes (TextNode t) = []"
| "childNodes (Elem tag href ls cs) = cs"

fun is_text :: "node \<Rightarrow> bool" where
  "is_text (TextNode t) = True"
| "is_text (Elem tag href ls cs) = False"

text \<open>
  The searching state of the page: the results region shows the loading text and is
  visible, the error region is hidden. The error state: the error region shows the
  message and is visible, the results region is hidden.
\<close>

definition Searching_state :: "(string \<Rightarrow> string) \<Rightarrow> state \<Rightarrow> bool" where
  "Searching_state translate s =
     (region_text (results s) = translate ''searching'' \<and> hidden (results s) = False
      \<and> hidden (errorMsg s) = True)"


text \<open>The completion events (\<open>load\<close> or \<open>error\<close>) of the request with a given index.\<close>

fun completion_of :: "nat \<Rightarrow> event \<Rightarrow> bool" where
  "completion_of i Submit = False"
| "completion_of i (Input v) = False"
| "completion_of i (Load j body) = (i = j)"
| "completion_of i (Failure j e) = (i = j)"

text \<open>
  The listeners that \<open>search\<close> registers on a request, and the shape of the store once a
  search has run under the delivery discipline: the variable refers to the newest
  request, all older ones are aborted, the two regions are not both visible, and the
  error region is hidden while the newest request is in flight.
\<close>

definition search_listeners :: "(string \<times> request_handler) list" where
  "search_listeners = [(''error'', OnRequestError), (''load'', OnRequestLoad)]"

definition one_current :: "state \<Rightarrow> bool" where
  "one_current s =
     (xhrs s \<noteq> [] \<and> request s = Some (length (xhrs s) - 1)
      \<and> list_all aborted (butlast (xhrs s))
      \<and> listeners (last (xhrs s)) = search_listeners
      \<and> (hidden (errorMsg s) \<or> hidden (results s))
      \<and> (completed (last (xhrs s)) \<or> aborted (last (xhrs s)) \<or> hidden (errorMsg s)))"

text \<open>
  Concrete pages for the examples: the page before any search, and a page whose only
  request has completed with a given response and error.
\<close>

definition page0 :: state where
  "page0 = init \<lparr>children = [], hidden = True\<rparr> \<lparr>children = [], hidden = True\<rparr> [] ''html''"

text \<open>
  The \<open>href\<close> property on the URL of the examples: a browser reads the attribute
  \<open>http://x\<close> back as \<open>http://x/\<close>.
\<close>

definition example_href :: "string \<Rightarrow> string" where
  "example_href u = (if u = ''http://x'' then ''http://x/'' else u)"

definition example_request :: "response_object option \<Rightarrow> string option \<Rightarrow> xhr" where
  "example_request body e =
     new_XMLHttpRequest\<lparr>sent := True, completed := True, response := body, error := e\<rparr>"

definition example_state :: "response_object option \<Rightarrow> string option \<Rightarrow> state" where
  "example_state body e =
     \<lparr>errorMsg = \<lparr>children = [], hidden = True\<rparr>,
      results = \<lparr>children = [TextNode ''Searching...''], hidden = False\<rparr>,
      searchInput_value = ''css'', searchInput_placeholder = ''html'',
      request = Some 0,
      xhrs = [example_request body e]\<rparr>"

section \<open>Properties\<close>

subsection \<open>Auxiliary facts\<close>

lemma region_text_set_textContent:
  "concat (map textContent (set_textContent t)) = t"
  by (simp add: set_textContent_def)

lemmas search_defs =
  search_def search_send_def search_show_def search_abort_def current_request_def
  addEventListener_def new_XMLHttpRequest_def region_text_def abort_def

lemmas example_defs =
  example_state_def example_request_def current_request_def new_XMLHttpRequest_def

lemma nth_snoc_len: "length xs = n \<Longrightarrow> (xs @ [x]) ! n = x"
  by auto

lemma aborted_list_update:
  "i < length xs \<Longrightarrow> aborted (xs ! i) \<Longrightarrow> aborted (xs[j := abort (xs ! j)] ! i)"
  by (cases "i = j") (simp_all add: abort_def)

lemma xhrs_search_nth:
  "i < length (xhrs s) \<Longrightarrow> xhrs (search tr s) ! i = xhrs (search_abort s) ! i"
  "xhrs (search tr s) ! length (xhrs s) =
     \<lparr>open_method = ''get'',
      open_url = apiURL @ (if searchInput_value s = [] then searchInput_placeholder s
                           else searchInput_value s),
      open_async = True, responseType = ''json'', listeners = search_listeners,
      sent = True, aborted = False, completed = False, response = None, error = None\<rparr>"
  "length (xhrs (search tr s)) = Suc (length (xhrs s))"
  "request (search tr s) = Some (length (xhrs s))"
  by (simp_all add: search_defs Let_def nth_append nth_snoc_len search_listeners_def
      split: option.splits)

lemma xhrs_search_snoc:
  "butlast (xhrs (search tr s)) = xhrs (search_abort s)"
  "last (xhrs (search tr s)) = xhrs (search tr s) ! length (xhrs s)"
  "xhrs (search tr s) \<noteq> []"
  by (simp_all add: search_defs Let_def nth_snoc_len split: option.splits)

lemma search_abort_aborts:
  "request s = Some i \<Longrightarrow> i < length (xhrs s) \<Longrightarrow> aborted (xhrs (search_abort s) ! i)"
  "j < length (xhrs s) \<Longrightarrow> aborted (xhrs s ! j) \<Longrightarrow> aborted (xhrs (search_abort s) ! j)"
  by (simp_all add: search_abort_def abort_def aborted_list_update [unfolded abort_def]
      split: option.splits)

lemma search_hides_error:
  "hidden (errorMsg (search tr s))" "\<not> hidden (results (search tr s))"
  by (simp_all add: search_defs Let_def split: option.splits)

text \<open>What the handlers build, and what they leave alone.\<close>

lemma render_document_results:
  "render_document d s = s\<lparr>results := appendChild (result_heading d) (results s)\<rparr>"
  by (simp add: render_document_def createElement_def result_heading_def result_link_def)

lemma forEach_documents_results:
  "forEach_documents docs s =
     s\<lparr>results := (results s)\<lparr>children := children (results s) @ map result_heading docs\<rparr>\<rparr>"
  by (induction docs arbitrary: s) (simp_all add: render_document_results appendChild_def)

lemma onRequestLoad_Array:
  assumes "current_request s = Some r" "response r = Some resp" "documents resp = Array docs"
    "docs \<noteq> []"
  shows "onRequestLoad translate s =
     (Returned, s\<lparr>results := \<lparr>children = map result_heading docs, hidden = False\<rparr>\<rparr>)"
  using assms
  by (simp add: onRequestLoad_def forEach_documents_results set_textContent_def)

lemma onRequestLoad_empty:
  assumes "current_request s = Some r" "response r = Some resp" "documents resp = Array []"
  shows "onRequestLoad translate s =
     (Returned, s\<lparr>results := \<lparr>children = [Elem ''p'' None [] (set_textContent (translate ''search_no_results''))], hidden = False\<rparr>\<rparr>)"
  using assms
  by (simp add: onRequestLoad_def set_textContent_def createElement_def appendChild_def)

lemma click_result_link:
  "click href_property (result_link d) =
     \<lparr>defaultPrevented = True, opened = [(href_property (url d), ''overlay'')],
      navigated = None\<rparr>"
  by (simp add: result_link_def target_href_def)

lemma click_plain_link:
  "navigated (click href_property (Elem ''a'' (Some u) [] cs)) = Some (href_property u)"
  by simp

lemma textContent_result_link: "textContent (result_link d) = title d"
  by (simp add: result_link_def region_text_set_textContent)

lemma anchors_result_heading: "anchors (result_heading d) = [result_link d]"
  by (simp add: result_heading_def result_link_def set_textContent_def)

lemma showError_frame [simp]:
  "xhrs (showError t s) = xhrs s" "request (showError t s) = request s"
  "hidden (errorMsg (showError t s)) = False" "hidden (results (showError t s)) = True"
  "children (results (showError t s)) = children (results s)"
  "children (errorMsg (showError t s)) = set_textContent t"
  "searchInput_value (showError t s) = searchInput_value s"
  "searchInput_placeholder (showError t s) = searchInput_placeholder s"
  by (simp_all add: showError_def)

lemma onRequestError_frame [simp]:
  "xhrs (snd (onRequestError tr s)) = xhrs s" "request (snd (onRequestError tr s)) = request s"
  by (simp_all add: onRequestError_def split: option.splits list.splits)

lemma forEach_frame [simp]:
  "xhrs (forEach_documents ds s) = xhrs s" "request (forEach_documents ds s) = request s"
  "errorMsg (forEach_documents ds s) = errorMsg s"
  "hidden (results (forEach_documents ds s)) = hidden (results s)"
  by (simp_all add: forEach_documents_results)

lemma onRequestLoad_frame [simp]:
  "xhrs (snd (onRequestLoad tr s)) = xhrs s" "request (snd (onRequestLoad tr s)) = request s"
  by (simp_all add: onRequestLoad_def Let_def appendChild_def
      split: option.splits documents_value.splits)

lemma run_request_handler_frame [simp]:
  "xhrs (run_request_handler tr h s) = xhrs s" "request (run_request_handler tr h s) = request s"
  by (cases h; simp)+

lemma fire_listeners_frame [simp]:
  "xhrs (fire_listeners tr ty ls s) = xhrs s" "request (fire_listeners tr ty ls s) = request s"
  by (induction ls arbitrary: s; auto)+

lemma fire_search_listeners:
  "fire_listeners tr ''load'' search_listeners s = snd (onRequestLoad tr s)"
  "fire_listeners tr ''error'' search_listeners s = snd (onRequestError tr s)"
  by (simp_all add: search_listeners_def)

lemma onRequestLoad_exclusive:
  assumes "hidden (errorMsg s)"
  shows "hidden (errorMsg (snd (onRequestLoad tr s))) \<or> hidden (results (snd (onRequestLoad tr s)))"
  using assms
  by (simp add: onRequestLoad_def Let_def appendChild_def
      split: option.splits documents_value.splits)

lemma onRequestError_exclusive:
  assumes "hidden (errorMsg s) \<or> hidden (results s)"
  shows "hidden (errorMsg (snd (onRequestError tr s))) \<or> hidden (results (snd (onRequestError tr s)))"
  using assms
  by (simp add: onRequestError_def split: option.splits list.splits)

text \<open>An aborted request stays aborted, and its completion events are not delivered.\<close>

lemma aborted_stable_dispatch:
  assumes "i < length (xhrs s)" "aborted (xhrs s ! i)"
  shows "i < length (xhrs (dispatch tr ev s)) \<and> aborted (xhrs (dispatch tr ev s) ! i)"
proof (cases ev)
  case Submit
  then show ?thesis using assms
    by (simp add: xhrs_search_nth search_abort_aborts)
next
  case (Input v)
  then show ?thesis using assms by simp
next
  case (Load j body)
  then show ?thesis using assms by (auto simp: fire_def nth_list_update)
next
  case (Failure j e)
  then show ?thesis using assms by (auto simp: fire_def nth_list_update)
qed

lemma aborted_stable_deliver:
  assumes "i < length (xhrs s)" "aborted (xhrs s ! i)"
  shows "i < length (xhrs (deliver tr ev s)) \<and> aborted (xhrs (deliver tr ev s) ! i)"
  using assms aborted_stable_dispatch by (simp add: deliver_def)

lemma deliver_aborted_noop:
  assumes "i < length (xhrs s)" "aborted (xhrs s ! i)" "completion_of i ev"
  shows "deliver tr ev s = s"
  using assms by (cases ev) (auto simp: deliver_def in_flight_def)

lemma run_delivered_skip_aborted:
  assumes "i < length (xhrs s)" "aborted (xhrs s ! i)"
  shows "run_delivered tr evs s = run_delivered tr (filter (\<lambda>ev. \<not> completion_of i ev) evs) s"
  using assms
proof (induction evs arbitrary: s)
  case Nil
  then show ?case by simp
next
  case (Cons ev evs)
  show ?case
  proof (cases "completion_of i ev")
    case True
    with Cons.prems have "deliver tr ev s = s" by (simp add: deliver_aborted_noop)
    with True Cons show ?thesis by simp
  next
    case False
    from Cons.prems have "i < length (xhrs (deliver tr ev s)) \<and> aborted (xhrs (deliver tr ev s) ! i)"
      by (rule aborted_stable_deliver)
    with False Cons.IH show ?thesis by simp
  qed
qed

lemma search_search_first_aborted:
  "length (xhrs s) < length (xhrs (search tr (search tr s)))
   \<and> aborted (xhrs (search tr (search tr s)) ! length (xhrs s))"
proof -
  let ?s1 = "search tr s"
  have len: "length (xhrs s) < length (xhrs ?s1)"
    by (simp add: xhrs_search_nth(3))
  have req: "request ?s1 = Some (length (xhrs s))"
    by (rule xhrs_search_nth(4))
  have "aborted (xhrs (search_abort ?s1) ! length (xhrs s))"
    using req len by (rule search_abort_aborts(1))
  then have "aborted (xhrs (search tr ?s1) ! length (xhrs s))"
    using len by (simp add: xhrs_search_nth(1))
  moreover have "length (xhrs s) < length (xhrs (search tr ?s1))"
    by (simp add: xhrs_search_nth(3))
  ultimately show ?thesis by simp
qed

text \<open>The shape \<open>one_current\<close> is established by \<open>search\<close> and kept by every delivered event.\<close>

lemma search_abort_all_aborted:
  assumes "(xhrs s = [] \<and> request s = None) \<or> one_current s"
  shows "list_all aborted (xhrs (search_abort s))"
proof (cases "xhrs s = []")
  case True
  then show ?thesis by (simp add: search_abort_def split: option.splits)
next
  case False
  with assms have oc: "one_current s" by blast
  then have req: "request s = Some (length (xhrs s) - 1)"
    and but: "list_all aborted (butlast (xhrs s))"
    by (simp_all add: one_current_def)
  have "aborted (xhrs (search_abort s) ! i)" if "i < length (xhrs s)" for i
  proof (cases "i = length (xhrs s) - 1")
    case True
    with req that show ?thesis by (simp add: search_abort_aborts(1))
  next
    case False
    with that have "i < length (butlast (xhrs s))" by simp
    with but have "aborted (butlast (xhrs s) ! i)" by (simp add: list_all_length)
    with \<open>i < length (butlast (xhrs s))\<close> have "aborted (xhrs s ! i)"
      by (simp add: nth_butlast)
    with that show ?thesis by (rule search_abort_aborts(2))
  qed
  moreover have "length (xhrs (search_abort s)) = length (xhrs s)"
    by (simp add: search_abort_def split: option.splits)
  ultimately show ?thesis by (simp add: list_all_length)
qed

lemma search_one_current:
  assumes "(xhrs s = [] \<and> request s = None) \<or> one_current s"
  shows "one_current (search tr s)"
  unfolding one_current_def
  using search_abort_all_aborted [OF assms]
  by (simp add: xhrs_search_snoc xhrs_search_nth search_hides_error)

lemma in_flight_is_current:
  assumes "one_current s" "in_flight i s"
  shows "i = length (xhrs s) - 1 \<and> hidden (errorMsg s) \<and> xhrs s ! i = last (xhrs s)"
proof -
  from assms(2) have i: "i < length (xhrs s)" and na: "\<not> aborted (xhrs s ! i)"
    and nc: "\<not> completed (xhrs s ! i)"
    by (simp_all add: in_flight_def)
  from assms(1) have but: "list_all aborted (butlast (xhrs s))" and ne: "xhrs s \<noteq> []"
    and h: "completed (last (xhrs s)) \<or> aborted (last (xhrs s)) \<or> hidden (errorMsg s)"
    by (simp_all add: one_current_def)
  have eq: "i = length (xhrs s) - 1"
  proof (rule ccontr)
    assume "i \<noteq> length (xhrs s) - 1"
    with i have lt: "i < length (butlast (xhrs s))" by simp
    with but have "aborted (butlast (xhrs s) ! i)" by (simp add: list_all_length)
    with lt na show False by (simp add: nth_butlast)
  qed
  with ne have l: "xhrs s ! i = last (xhrs s)" by (simp add: last_conv_nth)
  with h na nc eq show ?thesis by simp
qed

lemma one_current_completed:
  assumes "one_current s" "i = length (xhrs s) - 1" "listeners x = listeners (last (xhrs s))"
    "completed x"
  shows "xhrs (s\<lparr>xhrs := (xhrs s)[i := x]\<rparr>) \<noteq> []
    \<and> request (s\<lparr>xhrs := (xhrs s)[i := x]\<rparr>) = Some (length (xhrs (s\<lparr>xhrs := (xhrs s)[i := x]\<rparr>)) - 1)
    \<and> list_all aborted (butlast (xhrs (s\<lparr>xhrs := (xhrs s)[i := x]\<rparr>)))
    \<and> listeners (last (xhrs (s\<lparr>xhrs := (xhrs s)[i := x]\<rparr>))) = search_listeners
    \<and> completed (last (xhrs (s\<lparr>xhrs := (xhrs s)[i := x]\<rparr>)))
    \<and> xhrs (s\<lparr>xhrs := (xhrs s)[i := x]\<rparr>) ! i = x"
proof -
  from assms(1) have ne: "xhrs s \<noteq> []" by (simp add: one_current_def)
  then have i: "i < length (xhrs s)" using assms(2) by simp
  have l: "last ((xhrs s)[i := x]) = x"
    using ne i assms(2) by (simp add: last_conv_nth)
  have b: "butlast ((xhrs s)[i := x]) = butlast (xhrs s)"
    using assms(2) by (simp add: butlast_list_update)
  show ?thesis
    using assms ne i l b by (simp add: one_current_def)
qed

lemma dispatch_completion_one_current:
  assumes oc: "one_current s" and fl: "in_flight i s"
  shows "one_current (dispatch tr (Load i body) s)" "one_current (dispatch tr (Failure i e) s)"
proof -
  have eq: "i = length (xhrs s) - 1" and h: "hidden (errorMsg s)"
    and l: "xhrs s ! i = last (xhrs s)"
    using in_flight_is_current [OF oc fl] by blast+
  from fl have i: "i < length (xhrs s)" by (simp add: in_flight_def)
  from oc have ls: "listeners (last (xhrs s)) = search_listeners" by (simp add: one_current_def)
  let ?x = "(xhrs s ! i)\<lparr>completed := True, response := body\<rparr>"
  let ?s1 = "s\<lparr>xhrs := (xhrs s)[i := ?x]\<rparr>"
  have f1: "xhrs ?s1 \<noteq> [] \<and> request ?s1 = Some (length (xhrs ?s1) - 1)
      \<and> list_all aborted (butlast (xhrs ?s1)) \<and> listeners (last (xhrs ?s1)) = search_listeners
      \<and> completed (last (xhrs ?s1)) \<and> xhrs ?s1 ! i = ?x"
    by (rule one_current_completed [OF oc eq]) (simp_all add: l)
  have h1: "hidden (errorMsg ?s1)" using h by simp
  have d1: "dispatch tr (Load i body) s = snd (onRequestLoad tr ?s1)"
    using i f1 l ls by (simp add: fire_def fire_search_listeners)
  show "one_current (dispatch tr (Load i body) s)"
    unfolding d1 one_current_def using f1 onRequestLoad_exclusive [OF h1, of tr] by simp
  let ?y = "(xhrs s ! i)\<lparr>completed := True, error := e\<rparr>"
  let ?s2 = "s\<lparr>xhrs := (xhrs s)[i := ?y]\<rparr>"
  have f2: "xhrs ?s2 \<noteq> [] \<and> request ?s2 = Some (length (xhrs ?s2) - 1)
      \<and> list_all aborted (butlast (xhrs ?s2)) \<and> listeners (last (xhrs ?s2)) = search_listeners
      \<and> completed (last (xhrs ?s2)) \<and> xhrs ?s2 ! i = ?y"
    by (rule one_current_completed [OF oc eq]) (simp_all add: l)
  have h2: "hidden (errorMsg ?s2) \<or> hidden (results ?s2)" using h by simp
  have d2: "dispatch tr (Failure i e) s = snd (onRequestError tr ?s2)"
    using i f2 l ls by (simp add: fire_def fire_search_listeners)
  show "one_current (dispatch tr (Failure i e) s)"
    unfolding d2 one_current_def using f2 onRequestError_exclusive [OF h2, of tr] by simp
qed

lemma deliver_one_current:
  assumes "one_current s"
  shows "one_current (deliver tr ev s)"
proof (cases ev)
  case Submit
  with assms show ?thesis by (simp add: deliver_def search_one_current)
next
  case (Input v)
  with assms show ?thesis by (simp add: deliver_def one_current_def)
next
  case (Load i body)
  with assms show ?thesis
    by (cases "in_flight i s") (simp_all add: deliver_def dispatch_completion_one_current del: dispatch.simps)
next
  case (Failure i e)
  with assms show ?thesis
    by (cases "in_flight i s") (simp_all add: deliver_def dispatch_completion_one_current del: dispatch.simps)
qed

lemma run_delivered_one_current:
  "one_current s \<Longrightarrow> one_current (run_delivered tr evs s)"
  by (induction evs arbitrary: s) (simp_all add: deliver_one_current)

lemma deliver_before_search:
  assumes "xhrs s = [] \<and> request s = None"
  shows "(xhrs (deliver tr ev s) = [] \<and> request (deliver tr ev s) = None) \<or> one_current (deliver tr ev s)"
proof (cases ev)
  case Submit
  with assms show ?thesis by (simp add: deliver_def search_one_current)
qed (use assms in \<open>simp_all add: deliver_def in_flight_def\<close>)

lemma run_delivered_invariant:
  assumes "(xhrs s = [] \<and> request s = None) \<or> one_current s"
  shows "(xhrs (run_delivered tr evs s) = [] \<and> request (run_delivered tr evs s) = None)
         \<or> one_current (run_delivered tr evs s)"
  using assms
proof (induction evs arbitrary: s)
  case Nil
  then show ?case by simp
next
  case (Cons ev evs)
  from Cons.prems deliver_before_search [of s tr ev] deliver_one_current [of s tr ev]
  have "(xhrs (deliver tr ev s) = [] \<and> request (deliver tr ev s) = None) \<or> one_current (deliver tr ev s)"
    by blast
  then show ?case using Cons.IH by simp
qed

lemma run_delivered_append:
  "run_delivered tr (evs @ evs') s = run_delivered tr evs' (run_delivered tr evs s)"
  by (induction evs arbitrary: s) simp_all

text \<open>\<open>search\<close> statement by statement.\<close>

lemma on_request_frame:
  "results (on_request f s) = results s" "errorMsg (on_request f s) = errorMsg s"
  "request (on_request f s) = request s" "length (xhrs (on_request f s)) = length (xhrs s)"
  "searchInput_value (on_request f s) = searchInput_value s"
  "searchInput_placeholder (on_request f s) = searchInput_placeholder s"
  by (simp_all add: on_request_def split: option.splits)

lemma on_request_last:
  "on_request f (s\<lparr>request := Some (length xs), xhrs := xs @ [r]\<rparr>) =
     s\<lparr>request := Some (length xs), xhrs := xs @ [f r]\<rparr>"
  by (simp add: on_request_def)

lemma run_search_stmts: "run_stmts translate search_stmts s = search translate s"
  by (simp add: search_stmts_def search_def search_send_def search_show_def search_abort_def
      on_request_def Let_def addEventListener_def split: option.splits)

lemma run_stmts_append:
  "run_stmts translate (xs @ ys) s = run_stmts translate ys (run_stmts translate xs s)"
  by (induction xs arbitrary: s) simp_all

lemma searching_from_fourth:
  "Searching_state translate (run_stmts translate (take (4 + n) search_stmts) s)"
proof -
  have base: "Searching_state translate (run_stmts translate (take 4 search_stmts) s)"
    by (simp add: search_stmts_def Searching_state_def on_request_frame region_text_def
        region_text_set_textContent)
  have keep: "Searching_state translate (exec_stmt translate st t)"
    if "Searching_state translate t" "st \<in> set (drop 4 search_stmts)" for st t
    using that
    by (auto simp: search_stmts_def Searching_state_def on_request_frame region_text_def Let_def)
  have step: "Searching_state translate (run_stmts translate sts t)"
    if "Searching_state translate t" "set sts \<subseteq> set (drop 4 search_stmts)" for sts t
    using that by (induction sts arbitrary: t) (simp_all add: keep)
  have split: "run_stmts translate (take (4 + n) search_stmts) s =
      run_stmts translate (take n (drop 4 search_stmts))
        (run_stmts translate (take 4 search_stmts) s)"
    by (simp only: take_add run_stmts_append)
  show ?thesis
    unfolding split using base by (rule step) (rule set_take_subset)
qed

lemma map_sent_on_request:
  assumes "\<And>x. sent (f x) = sent x"
  shows "map sent (xhrs (on_request f s)) = map sent (xhrs s)"
proof (cases "request s")
  case None
  then show ?thesis by (simp add: on_request_def)
next
  case (Some i)
  have "map sent ((xhrs s)[i := f (xhrs s ! i)]) = map sent (xhrs s)"
  proof (cases "i < length (xhrs s)")
    case True
    then show ?thesis
      by (simp add: list_eq_iff_nth_eq nth_list_update assms)
  next
    case False
    then have "(xhrs s)[i := f (xhrs s ! i)] = xhrs s"
      by (simp add: list_update_beyond)
    then show ?thesis by simp
  qed
  then show ?thesis using Some by (simp add: on_request_def)
qed

lemma list_all_drop_single: "P r \<Longrightarrow> list_all P (drop n [r])"
  by (cases n) simp_all

lemma unsent_map: "list_all (\<lambda>x. \<not> sent x) (drop k xs) = list_all Not (drop k (map sent xs))"
  by (simp add: drop_map list.pred_map comp_def)

lemma on_request_unsent:
  assumes "\<And>x. sent (f x) = sent x"
  shows "list_all (\<lambda>x. \<not> sent x) (drop k (xhrs (on_request f s))) =
         list_all (\<lambda>x. \<not> sent x) (drop k (xhrs s))"
  by (simp only: unsent_map map_sent_on_request [OF assms])

lemma unsent_before_send:
  "list_all (\<lambda>x. \<not> sent x)
     (drop (length (xhrs s)) (xhrs (run_stmts translate (take m (take 8 search_stmts)) s)))"
proof -
  let ?unsent = "\<lambda>t. list_all (\<lambda>x. \<not> sent x) (drop (length (xhrs s)) (xhrs t))"
  have keep: "?unsent (exec_stmt translate st t)"
    if u: "?unsent t" and st: "st \<in> set (take 8 search_stmts)" for st t
  proof -
    from st consider "st = Abort_request" | "st = Set_results_text" | "st = Show_results"
      | "st = Hide_error" | "st = Open_request" | "st = Set_responseType"
      | "st = Listen_error" | "st = Listen_load"
      by (auto simp: search_stmts_def)
    then show ?thesis
    proof cases
      case 1
      with u show ?thesis by (simp add: on_request_unsent abort_def)
    next
      case 2
      with u show ?thesis by simp
    next
      case 3
      with u show ?thesis by simp
    next
      case 4
      with u show ?thesis by simp
    next
      case 5
      with u show ?thesis by (simp add: Let_def new_XMLHttpRequest_def list_all_drop_single)
    next
      case 6
      with u show ?thesis by (simp add: on_request_unsent)
    next
      case 7
      with u show ?thesis by (simp add: on_request_unsent addEventListener_def)
    next
      case 8
      with u show ?thesis by (simp add: on_request_unsent addEventListener_def)
    qed
  qed
  have step: "?unsent (run_stmts translate sts t)"
    if "?unsent t" "set sts \<subseteq> set (take 8 search_stmts)" for sts t
    using that by (induction sts arbitrary: t) (simp_all add: keep)
  have "?unsent s" by simp
  then show ?thesis by (rule step) (rule set_take_subset)
qed

text \<open>The three loops of \<open>displayNarrative\<close>, each as a concatenation over the rest of its list.\<close>

lemma signs_loop_eq:
  "signs_loop sgs k html =
     html @ concat (map (\<lambda>sg. concat (map image_markup (sign_urls sg))) (drop k sgs))"
proof (induction sgs k html rule: signs_loop.induct)
  case (1 sgs k html)
  show ?case
  proof (cases "k < length sgs")
    case True
    then have d: "drop k sgs = sgs ! k # drop (Suc k) sgs"
      by (simp add: Cons_nth_drop_Suc)
    have step: "(case sgs ! k of
                None \<Rightarrow> html
              | Some sg \<Rightarrow>
                  (case sign_url sg of
                     None \<Rightarrow> html
                   | Some [] \<Rightarrow> html
                   | Some (c # cs) \<Rightarrow> html @ (''<img src=\"'' @ (c # cs) @ ''\">  '')))
        = html @ concat (map image_markup (sign_urls (sgs ! k)))"
      by (simp add: sign_urls_def present_url_def image_markup_def
          split: option.splits list.splits)
    from True have "signs_loop sgs k html =
        signs_loop sgs (k + 1) (html @ concat (map image_markup (sign_urls (sgs ! k))))"
      by (subst signs_loop.simps) (simp add: step)
    also have "\<dots> = (html @ concat (map image_markup (sign_urls (sgs ! k))))
        @ concat (map (\<lambda>sg. concat (map image_markup (sign_urls sg))) (drop (k + 1) sgs))"
      using True "1.IH" [OF True] by (simp add: step)
    finally show ?thesis by (simp add: d)
  next
    case False
    then show ?thesis by (subst signs_loop.simps) simp
  qed
qed

lemma concat_map_concat_map:
  "concat (map f (concat (map g xs))) = concat (map (\<lambda>x. concat (map f (g x))) xs)"
  by (induction xs) simp_all

lemma maneuver_row_eq: "maneuver_row m html = html @ row_markup (row_of m)"
proof -
  have "(case iconUrl m of None \<Rightarrow> h | Some [] \<Rightarrow> h
         | Some (c # cs) \<Rightarrow> h @ (''<img src=\"'' @ (c # cs) @ ''\">  ''))
        = h @ concat (map image_markup (present_url (iconUrl m)))" for h
    by (simp add: present_url_def image_markup_def split: option.splits list.splits)
  then show ?thesis
    by (simp add: maneuver_row_def row_markup_def row_of_def signs_loop_eq Let_def
        concat_map_concat_map)
qed

lemma maneuvers_loop_eq:
  "maneuvers_loop ms j html = html @ concat (map (\<lambda>m. row_markup (row_of m)) (drop j ms))"
proof (induction ms j html rule: maneuvers_loop.induct)
  case (1 ms j html)
  show ?case
  proof (cases "j < length ms")
    case True
    then have d: "drop j ms = ms ! j # drop (Suc j) ms"
      by (simp add: Cons_nth_drop_Suc)
    from True have "maneuvers_loop ms j html = maneuvers_loop ms (j + 1) (maneuver_row (ms ! j) html)"
      by (subst maneuvers_loop.simps) simp
    also have "\<dots> = maneuver_row (ms ! j) html
        @ concat (map (\<lambda>m. row_markup (row_of m)) (drop (j + 1) ms))"
      using "1.IH" [OF True] .
    finally show ?thesis by (simp add: d maneuver_row_eq)
  next
    case False
    then show ?thesis by (subst maneuvers_loop.simps) simp
  qed
qed

lemma legs_loop_eq:
  "legs_loop ls i html =
     html @ concat (map (\<lambda>m. row_markup (row_of m)) (concat (map maneuvers (drop i ls))))"
proof (induction ls i html rule: legs_loop.induct)
  case (1 ls i html)
  show ?case
  proof (cases "i < length ls")
    case True
    then have d: "drop i ls = ls ! i # drop (Suc i) ls"
      by (simp add: Cons_nth_drop_Suc)
    from True have "legs_loop ls i html =
        legs_loop ls (i + 1) (maneuvers_loop (maneuvers (ls ! i)) 0 html)"
      by (subst legs_loop.simps) simp
    also have "\<dots> = maneuvers_loop (maneuvers (ls ! i)) 0 html
        @ concat (map (\<lambda>m. row_markup (row_of m)) (concat (map maneuvers (drop (i + 1) ls))))"
      using "1.IH" [OF True] .
    finally show ?thesis by (simp add: d maneuvers_loop_eq)
  next
    case False
    then show ?thesis by (subst legs_loop.simps) simp
  qed
qed

subsection \<open>Superseding an outstanding request\<close>

text \<open>
  C1, as the claim states it, fails: \<open>onRequestLoad\<close> and \<open>onRequestError\<close> read the variable
  \<open>request\<close>, not the request that fired them. After two searches the page is in the
  searching state of the second request; if the \<open>load\<close> event of the first request
  (index 0) still fires, the handler finds the second request's response \<open>null\<close> and
  puts the page in the error state.
\<close>

theorem stale_load_overwrites_searching:
  "hidden (results (run id [Submit, Submit] page0)) = False
   \<and> hidden (errorMsg (run id [Submit, Submit] page0)) = True
   \<and> region_text (results (run id [Submit, Submit] page0)) = ''searching''
   \<and> request (run id [Submit, Submit] page0) = Some 1
   \<and> hidden (results (run id [Submit, Submit, Load 0 (Some \<lparr>documents = Array []\<rparr>)] page0)) = True
   \<and> hidden (errorMsg (run id [Submit, Submit, Load 0 (Some \<lparr>documents = Array []\<rparr>)] page0)) = False
   \<and> region_text (errorMsg (run id [Submit, Submit, Load 0 (Some \<lparr>documents = Array []\<rparr>)] page0))
       = ''searching_error''"
  by (simp add: page0_def init_def search_defs Let_def fire_def onRequestLoad_def showError_def
      set_textContent_def)

text \<open>
  C1, amended. Of two consecutive calls of \<open>search\<close>, the first leaves its request in
  flight and current; the second aborts that request and makes its own request the
  current one, in flight. A completion event of the aborted first request is not
  delivered, so it leaves the page as the second search made it, and the page after any
  further delivered events is the same as if the completion events of the first request
  had never been issued.
\<close>

theorem second_search_supersedes_first:
  "request (search tr s) = Some (length (xhrs s))
   \<and> in_flight (length (xhrs s)) (search tr s)
   \<and> request (search tr (search tr s)) = Some (Suc (length (xhrs s)))
   \<and> in_flight (Suc (length (xhrs s))) (search tr (search tr s))
   \<and> aborted (xhrs (search tr (search tr s)) ! length (xhrs s))
   \<and> deliver tr (Load (length (xhrs s)) body) (search tr (search tr s)) = search tr (search tr s)
   \<and> deliver tr (Failure (length (xhrs s)) e) (search tr (search tr s)) = search tr (search tr s)
   \<and> run_delivered tr evs (search tr (search tr s)) =
       run_delivered tr (filter (\<lambda>ev. \<not> completion_of (length (xhrs s)) ev) evs)
         (search tr (search tr s))"
proof -
  have a: "length (xhrs s) < length (xhrs (search tr (search tr s)))"
    and b: "aborted (xhrs (search tr (search tr s)) ! length (xhrs s))"
    using search_search_first_aborted [where s = s and tr = tr] by simp_all
  have 1: "request (search tr s) = Some (length (xhrs s))"
    by (rule xhrs_search_nth(4))
  have 2: "in_flight (length (xhrs s)) (search tr s)"
    by (simp add: in_flight_def xhrs_search_nth)
  have 3: "request (search tr (search tr s)) = Some (Suc (length (xhrs s)))"
    by (simp add: xhrs_search_nth(3,4))
  have 4: "in_flight (Suc (length (xhrs s))) (search tr (search tr s))"
    using xhrs_search_nth(2) [where s = "search tr s" and tr = tr]
    by (simp add: in_flight_def xhrs_search_nth(3))
  have 5: "deliver tr (Load (length (xhrs s)) body) (search tr (search tr s)) = search tr (search tr s)"
    using a b by (simp add: deliver_aborted_noop)
  have 6: "deliver tr (Failure (length (xhrs s)) e) (search tr (search tr s)) = search tr (search tr s)"
    using a b by (simp add: deliver_aborted_noop)
  have 7: "run_delivered tr evs (search tr (search tr s)) =
       run_delivered tr (filter (\<lambda>ev. \<not> completion_of (length (xhrs s)) ev) evs)
         (search tr (search tr s))"
    using a b by (rule run_delivered_skip_aborted)
  from 1 2 3 4 b 5 6 7 show ?thesis by blast
qed

subsection \<open>search\<close>

text \<open>
  C2. Whatever the state of the page, the request that \<open>search\<close> leaves in the variable
  \<open>request\<close> was opened on the base endpoint followed by the effective term, character
  for character: the value of the search field, or its placeholder when the value is
  the empty string.
\<close>

theorem search_request_url:
  "map_option open_url (current_request (search translate s)) =
     Some (apiURL @ (if searchInput_value s = [] then searchInput_placeholder s
                     else searchInput_value s))"
  by (simp add: search_defs Let_def split: option.splits)

text \<open>
  C7. Run statement by statement, \<open>search\<close> reaches \<open>request.send()\<close> as its last
  statement, and the page is in the searching state before that statement runs: the
  results region reads \<open>translate 'searching'\<close> and is visible and the error region is
  hidden from the fourth statement on, at every later point of the call; at every
  point before \<open>send\<close> runs no request created by this call has been sent, and after it
  the current request has been.
\<close>

theorem search_searching_before_send:
  "run_stmts translate search_stmts s = search translate s
   \<and> search_stmts = takeWhile (\<lambda>st. st \<noteq> Send_request) search_stmts @ [Send_request]
   \<and> Searching_state translate
        (run_stmts translate (takeWhile (\<lambda>st. st \<noteq> Send_request) search_stmts) s)
   \<and> map_option sent (current_request
        (run_stmts translate (takeWhile (\<lambda>st. st \<noteq> Send_request) search_stmts) s)) = Some False
   \<and> Searching_state translate (run_stmts translate (take (4 + n) search_stmts) s)
   \<and> list_all (\<lambda>x. \<not> sent x)
        (drop (length (xhrs s))
           (xhrs (run_stmts translate
              (take m (takeWhile (\<lambda>st. st \<noteq> Send_request) search_stmts)) s)))
   \<and> Searching_state translate (search translate s)
   \<and> map_option sent (current_request (search translate s)) = Some True"
proof -
  have 1: "run_stmts translate search_stmts s = search translate s"
    by (rule run_search_stmts)
  have 2: "search_stmts = takeWhile (\<lambda>st. st \<noteq> Send_request) search_stmts @ [Send_request]"
    by (simp add: search_stmts_def)
  have pre: "takeWhile (\<lambda>st. st \<noteq> Send_request) search_stmts = take 8 search_stmts"
    by (simp add: search_stmts_def)
  have 5: "Searching_state translate (run_stmts translate (take (4 + n) search_stmts) s)"
    by (rule searching_from_fourth)
  have 3: "Searching_state translate
        (run_stmts translate (takeWhile (\<lambda>st. st \<noteq> Send_request) search_stmts) s)"
    unfolding pre using searching_from_fourth [of translate 4 s] by simp
  have 4: "map_option sent (current_request
        (run_stmts translate (takeWhile (\<lambda>st. st \<noteq> Send_request) search_stmts) s)) = Some False"
    unfolding pre
    by (simp add: search_stmts_def on_request_def current_request_def Let_def
        new_XMLHttpRequest_def addEventListener_def)
  have 6: "list_all (\<lambda>x. \<not> sent x)
        (drop (length (xhrs s))
           (xhrs (run_stmts translate
              (take m (takeWhile (\<lambda>st. st \<noteq> Send_request) search_stmts)) s)))"
    unfolding pre by (rule unsent_before_send)
  have 7: "Searching_state translate (search translate s)"
    by (simp add: Searching_state_def search_defs Let_def region_text_set_textContent
        split: option.splits)
  have 8: "map_option sent (current_request (search translate s)) = Some True"
    by (simp add: search_defs Let_def split: option.splits)
  from 1 2 3 4 5 6 7 8 show ?thesis by blast
qed

subsection \<open>The route narrative\<close>

text \<open>
  C3. For a route object, \<open>displayNarrative\<close> assigns to the narrative element the markup
  of the table that has exactly one row per maneuver, legs in order and maneuvers in
  order within a leg, each row holding in its first cell the images of the icon and of
  the signs that are present, in that order, and in the next cell the narrative text.
\<close>

theorem displayNarrative_table:
  "displayNarrative \<lparr>route = Some r\<rparr> innerHTML =
     table_markup (map row_of (concat (map maneuvers (legs r))))"
  by (simp add: displayNarrative_def table_markup_def legs_loop_eq comp_def)

theorem displayNarrative_table_example:
  "map row_of (concat (map maneuvers (legs example_route))) =
     [([''i.png'', ''s.png''], ''Go north''), ([], ''Turn left''), ([''t.png''], ''Arrive'')]
   \<and> displayNarrative \<lparr>route = Some example_route\<rparr> ''old'' =
       ''<table><tbody>''
       @ ''<tr><td><img src=\"i.png\">  <img src=\"s.png\">  </td><td>Go north</td></tr>''
       @ ''<tr><td></td><td>Turn left</td></tr>''
       @ ''<tr><td><img src=\"t.png\">  </td><td>Arrive</td></tr>''
       @ ''</tbody></table>''"
  using displayNarrative_table [of example_route "''old''"]
  by (simp add: example_route_def row_of_def present_url_def sign_urls_def table_markup_def
      row_markup_def image_markup_def)

subsection \<open>Errors\<close>



subsection \<open>The success handler\<close>

text \<open>
  C5. When the current request's response has a non-empty documents list,
  \<open>onRequestLoad\<close> returns with the results region holding, for each document in order,
  one heading with one link; the link's text is the document's title and its target
  (its \<open>href\<close> attribute) the document's URL; a click on it is intercepted
  (\<open>preventDefault\<close>, no navigation of the main page) and opens, in the window named
  \<open>overlay\<close>, the same name for every link, the link's \<open>href\<close> property: the document's URL as
  the browser resolves it, which is the address the link would have taken the main page
  to had the click not been intercepted; the results region is visible.
\<close>

theorem onRequestLoad_renders_documents:
  assumes "current_request s = Some r" and "response r = Some resp"
    and "documents resp = Array docs" and "docs \<noteq> []"
  shows "fst (onRequestLoad translate s) = Returned
    \<and> children (results (snd (onRequestLoad translate s))) = map result_heading docs
    \<and> map textContent (map result_link docs) = map title docs
    \<and> map (click href_property) (map result_link docs) =
        map (\<lambda>d. \<lparr>defaultPrevented = True, opened = [(href_property (url d), ''overlay'')],
                  navigated = None\<rparr>) docs
    \<and> map (\<lambda>d. navigated (click href_property (Elem ''a'' (Some (url d)) [] []))) docs =
        map (\<lambda>d. Some (href_property (url d))) docs
    \<and> hidden (results (snd (onRequestLoad translate s))) = False"
  using assms by (simp add: onRequestLoad_Array click_result_link textContent_result_link)

theorem onRequestLoad_renders_documents_witness:
  "current_request
     (example_state (Some \<lparr>documents = Array [\<lparr>title = ''A'', url = ''http://x''\<rparr>]\<rparr>) None)
     = Some (example_request
               (Some \<lparr>documents = Array [\<lparr>title = ''A'', url = ''http://x''\<rparr>]\<rparr>) None)
   \<and> children (results (snd (onRequestLoad id
        (example_state (Some \<lparr>documents = Array [\<lparr>title = ''A'', url = ''http://x''\<rparr>]\<rparr>) None))))
      = [Elem ''h2'' None [] [Elem ''a'' (Some ''http://x'') [(''click'', LinkClick)] [TextNode ''A'']]]
   \<and> click example_href (Elem ''a'' (Some ''http://x'') [(''click'', LinkClick)] [TextNode ''A''])
      = \<lparr>defaultPrevented = True, opened = [(''http://x/'', ''overlay'')], navigated = None\<rparr>
   \<and> navigated (click example_href (Elem ''a'' (Some ''http://x'') [] [])) = Some ''http://x/''"
  using onRequestLoad_renders_documents [of
      "example_state (Some \<lparr>documents = Array [\<lparr>title = ''A'', url = ''http://x''\<rparr>]\<rparr>) None"
      "example_request (Some \<lparr>documents = Array [\<lparr>title = ''A'', url = ''http://x''\<rparr>]\<rparr>) None"
      "\<lparr>documents = Array [\<lparr>title = ''A'', url = ''http://x''\<rparr>]\<rparr>"
      "[\<lparr>title = ''A'', url = ''http://x''\<rparr>]" id example_href]
  by (simp add: example_defs result_heading_def result_link_def set_textContent_def
      example_href_def)

text \<open>
  C6. When the current request's response is \<open>{documents: []}\<close>, \<open>onRequestLoad\<close> returns
  with the results region holding exactly one element, a \<open>p\<close> with the text
  \<open>translate 'search_no_results'\<close>, whatever the region held before, and the region is
  visible.
\<close>

theorem onRequestLoad_no_results:
  assumes "current_request s = Some r" and "response r = Some resp"
    and "documents resp = Array []"
  shows "fst (onRequestLoad translate s) = Returned
    \<and> children (results (snd (onRequestLoad translate s)))
        = [Elem ''p'' None [] (set_textContent (translate ''search_no_results''))]
    \<and> region_text (results (snd (onRequestLoad translate s))) = translate ''search_no_results''
    \<and> hidden (results (snd (onRequestLoad translate s))) = False"
  using assms by (simp add: onRequestLoad_empty region_text_def region_text_set_textContent)

theorem onRequestLoad_no_results_witness:
  "current_request (example_state (Some \<lparr>documents = Array []\<rparr>) None)
     = Some (example_request (Some \<lparr>documents = Array []\<rparr>) None)
   \<and> children (results (snd (onRequestLoad id
         (example_state (Some \<lparr>documents = Array []\<rparr>) None))))
       = [Elem ''p'' None [] [TextNode ''search_no_results'']]
   \<and> hidden (results (snd (onRequestLoad id
         (example_state (Some \<lparr>documents = Array []\<rparr>) None)))) = False"
  using onRequestLoad_no_results [of
      "example_state (Some \<lparr>documents = Array []\<rparr>) None"
      "example_request (Some \<lparr>documents = Array []\<rparr>) None"
      "\<lparr>documents = Array []\<rparr>" id]
  by (simp add: example_defs set_textContent_def)

text \<open>
  C9. When the current request's response is an object whose \<open>documents\<close> is absent or
  \<open>null\<close>, \<open>onRequestLoad\<close> throws a \<open>TypeError\<close> after it has cleared the results region:
  the children of the results region are gone, and nothing else has changed, so the error
  region is as it was and the error state is not shown.
\<close>

theorem onRequestLoad_throws_without_documents:
  assumes "current_request s = Some r" and "response r = Some resp"
    and "documents resp = Undefined \<or> documents resp = Null"
  shows "onRequestLoad translate s =
           (Threw TypeError, s\<lparr>results := (results s)\<lparr>children := []\<rparr>\<rparr>)
    \<and> errorMsg (snd (onRequestLoad translate s)) = errorMsg s
    \<and> hidden (results (snd (onRequestLoad translate s))) = hidden (results s)"
  using assms by (auto simp: onRequestLoad_def set_textContent_def)

theorem onRequestLoad_throws_without_documents_witness:
  "current_request (example_state (Some \<lparr>documents = Undefined\<rparr>) None)
     = Some (example_request (Some \<lparr>documents = Undefined\<rparr>) None)
   \<and> fst (onRequestLoad id (example_state (Some \<lparr>documents = Undefined\<rparr>) None))
       = Threw TypeError
   \<and> children (results (snd (onRequestLoad id
         (example_state (Some \<lparr>documents = Undefined\<rparr>) None)))) = []
   \<and> hidden (errorMsg (snd (onRequestLoad id
         (example_state (Some \<lparr>documents = Undefined\<rparr>) None)))) = True"
  using onRequestLoad_throws_without_documents [of
      "example_state (Some \<lparr>documents = Undefined\<rparr>) None"
      "example_request (Some \<lparr>documents = Undefined\<rparr>) None"
      "\<lparr>documents = Undefined\<rparr>" id]
  by (simp add: example_defs)

text \<open>
  C10. After \<open>onRequestLoad\<close> has rendered a documents list, the texts of the links in
  the results region are the titles of the documents, in order and character for
  character, and every child of a link is a text node: no element is ever built from a
  title.
\<close>

theorem result_link_text_is_title:
  assumes "current_request s = Some r" and "response r = Some resp"
    and "documents resp = Array docs"
  shows "map textContent (concat (map anchors (children (results (snd (onRequestLoad translate s))))))
           = map title docs
    \<and> list_all (\<lambda>a. list_all is_text (childNodes a))
         (concat (map anchors (children (results (snd (onRequestLoad translate s))))))"
proof (cases "docs = []")
  case True
  with assms show ?thesis
    by (simp add: onRequestLoad_empty set_textContent_def)
next
  case False
  have c: "concat (map anchors (map result_heading ds)) = map result_link ds" for ds
    by (induction ds) (simp_all add: anchors_result_heading)
  have t: "list_all (\<lambda>a. list_all is_text (childNodes a)) (map result_link ds)" for ds
    by (induction ds) (simp_all add: result_link_def set_textContent_def)
  have x: "map textContent (map result_link ds) = map title ds" for ds
    by (induction ds) (simp_all add: textContent_result_link)
  from False assms
  have "children (results (snd (onRequestLoad translate s))) = map result_heading docs"
    by (simp add: onRequestLoad_Array)
  then have "concat (map anchors (children (results (snd (onRequestLoad translate s)))))
      = map result_link docs"
    by (simp only: c)
  then show ?thesis
    by (simp only: t x simp_thms)
qed

theorem result_link_text_is_title_witness:
  "current_request
     (example_state (Some \<lparr>documents = Array [\<lparr>title = ''<b>A</b>'', url = ''http://x''\<rparr>]\<rparr>) None)
     = Some (example_request
               (Some \<lparr>documents = Array [\<lparr>title = ''<b>A</b>'', url = ''http://x''\<rparr>]\<rparr>) None)
   \<and> map textContent (concat (map anchors (children (results (snd (onRequestLoad id
        (example_state
           (Some \<lparr>documents = Array [\<lparr>title = ''<b>A</b>'', url = ''http://x''\<rparr>]\<rparr>) None)))))))
      = [''<b>A</b>'']"
  using result_link_text_is_title [of
      "example_state (Some \<lparr>documents = Array [\<lparr>title = ''<b>A</b>'', url = ''http://x''\<rparr>]\<rparr>) None"
      "example_request (Some \<lparr>documents = Array [\<lparr>title = ''<b>A</b>'', url = ''http://x''\<rparr>]\<rparr>) None"
      "\<lparr>documents = Array [\<lparr>title = ''<b>A</b>'', url = ''http://x''\<rparr>]\<rparr>"
      "[\<lparr>title = ''<b>A</b>'', url = ''http://x''\<rparr>]" id]
  by (simp add: example_defs)

subsection \<open>Visibility of the two regions\<close>

text \<open>
  C8, as the claim states it, fails: the success path of \<open>onRequestLoad\<close> shows the
  results region and does not touch the error region. Two searches, then the \<open>error\<close>
  event of the first request, then the \<open>load\<close> event of the second with a documents
  list: the error region and the results region are both visible.
\<close>

theorem stale_error_then_load_shows_both:
  "hidden (errorMsg (run id
      [Submit, Submit, Failure 0 None,
       Load 1 (Some \<lparr>documents = Array [\<lparr>title = ''A'', url = ''http://x''\<rparr>]\<rparr>)] page0)) = False
   \<and> hidden (results (run id
      [Submit, Submit, Failure 0 None,
       Load 1 (Some \<lparr>documents = Array [\<lparr>title = ''A'', url = ''http://x''\<rparr>]\<rparr>)] page0)) = False"
  by (simp add: page0_def init_def search_defs Let_def fire_def onRequestLoad_def onRequestError_def
      showError_def set_textContent_def forEach_documents_results)

text \<open>
  C8, amended. Start from the page as the script finds it (no request yet) and let
  \<open>load\<close> and \<open>error\<close> events be delivered only to a request that is in flight (sent, not
  aborted, not completed before). Then at every point after the first search the
  error region and the results region are not both visible: \<open>search\<close> hides the error
  region and shows the results region, \<open>showError\<close> shows the error region and hides the
  results region, and the success path of \<open>onRequestLoad\<close> only shows the results region,
  the error region having been hidden by the search that issued the request.
\<close>

theorem regions_exclusive_after_search:
  "hidden (errorMsg (run_delivered tr (evs0 @ Submit # evs) (init e r v p)))
   \<or> hidden (results (run_delivered tr (evs0 @ Submit # evs) (init e r v p)))"
proof -
  let ?s0 = "run_delivered tr evs0 (init e r v p)"
  have "(xhrs ?s0 = [] \<and> request ?s0 = None) \<or> one_current ?s0"
    by (rule run_delivered_invariant) (simp add: init_def)
  then have "one_current (deliver tr Submit ?s0)"
    by (simp add: deliver_def search_one_current)
  then have "one_current (run_delivered tr evs (deliver tr Submit ?s0))"
    by (rule run_delivered_one_current)
  then show ?thesis
    by (simp add: run_delivered_append one_current_def)
qed

end
